theory Spec2Isabelle
  imports Complex_Main "HOL-Library.Word" "HOL-Library.Multiset"
begin

section \<open>Domain: orders and outbox events (internal/domain/order.go)\<close>

text \<open>
  The Go types \<open>OrderStatus\<close>, \<open>OrderSide\<close> and \<open>OrderType\<close> are named string types, so
  any string can occur where a status is expected (a request body or a database row
  decides). They are modelled as strings with the four status constants of the source.
\<close>

type_synonym OrderStatus = string
type_synonym OrderSide = string
type_synonym OrderType = string

definition StatusPending :: OrderStatus where "StatusPending = ''PENDING''"
definition StatusExecuting :: OrderStatus where "StatusExecuting = ''EXECUTING''"
definition StatusCompleted :: OrderStatus where "StatusCompleted = ''COMPLETED''"
definition StatusFailed :: OrderStatus where "StatusFailed = ''FAILED''"

definition SideBuy :: OrderSide where "SideBuy = ''BUY''"
definition SideSell :: OrderSide where "SideSell = ''SELL''"
definition TypeMarket :: OrderType where "TypeMarket = ''MARKET''"
definition TypeLimit :: OrderType where "TypeLimit = ''LIMIT''"

text \<open>
  \<open>time.Time\<close> is a point on a line; only its order and equality are used. The zero
  value of the Go type is \<open>0\<close>.

  \<open>Quantity\<close> and \<open>Price\<close> are \<open>float64\<close> in the source. The only operation the modelled
  code performs on them is the comparison \<open>Quantity > 0\<close>, and the values come from a
  decoded JSON number, which is finite; on finite values that comparison is the
  comparison of the real numbers they denote.
\<close>

type_synonym time = int

record Order =
  ID :: string
  Symbol :: string
  Side :: OrderSide
  Type :: OrderType
  Quantity :: real
  Price :: real
  Status :: OrderStatus
  CreatedAt :: time
  UpdatedAt :: time

record OutboxEvent =
  EventID :: "64 word"
  Aggregate :: string
  AggregateID :: string
  EventType :: string
  Payload :: string
  Processed :: bool
  EventCreatedAt :: time
  ProcessedAt :: "time option"

text \<open>\<open>NewOrder\<close>; the reading of \<open>time.Now()\<close> is the argument \<open>now\<close>.\<close>

definition NewOrder ::
  "string \<Rightarrow> string \<Rightarrow> OrderSide \<Rightarrow> OrderType \<Rightarrow> real \<Rightarrow> real \<Rightarrow> time \<Rightarrow> Order" where
  "NewOrder oid symbol side orderType quantity price now =
     \<lparr> ID = oid, Symbol = symbol, Side = side, Type = orderType,
       Quantity = quantity, Price = price, Status = StatusPending,
       CreatedAt = now, UpdatedAt = now \<rparr>"

definition IsValid :: "Order \<Rightarrow> bool" where
  "IsValid ord = (ID ord \<noteq> '''' \<and> Symbol ord \<noteq> '''' \<and> Quantity ord > 0)"

text \<open>
  \<open>CanTransitionTo\<close> builds a map from status to the list of allowed successors and
  ranges over the entry of the current status. Indexing a Go map with a missing key
  yields the nil slice, over which the loop body never runs.
\<close>

definition transitions :: "(OrderStatus \<times> OrderStatus list) list" where
  "transitions =
     [(StatusPending, [StatusExecuting, StatusFailed]),
      (StatusExecuting, [StatusCompleted, StatusFailed]),
      (StatusCompleted, []),
      (StatusFailed, [])]"

definition transitions_at :: "OrderStatus \<Rightarrow> OrderStatus list" where
  "transitions_at s = (case map_of transitions s of None \<Rightarrow> [] | Some allowed \<Rightarrow> allowed)"

fun range_allowed :: "OrderStatus list \<Rightarrow> OrderStatus \<Rightarrow> bool" where
  "range_allowed [] newStatus = False"
| "range_allowed (allowed # rest) newStatus =
     (if allowed = newStatus then True else range_allowed rest newStatus)"

definition CanTransitionTo :: "Order \<Rightarrow> OrderStatus \<Rightarrow> bool" where
  "CanTransitionTo ord newStatus = range_allowed (transitions_at (Status ord)) newStatus"


section \<open>The collaborators: store, bus, exchange, clock\<close>

text \<open>
  The database, the Kafka writer, the exchange and the wall clock are outside the
  repository. Each call to one of them has an outcome the program does not control, so
  the outcomes are parameters: \<open>db_ok env n\<close> tells whether the store call made after
  \<open>n\<close> earlier store calls reaches the database (a lost connection or a cancelled request
  context makes it fail), \<open>pub_ok env n\<close> whether the \<open>n\<close>-th \<open>WriteMessages\<close> succeeds,
  \<open>exch_ok env n\<close> whether the \<open>n\<close>-th \<open>ExecuteTrade\<close> succeeds, and \<open>clock env n\<close> is
  the \<open>n\<close>-th reading of \<open>time.Now()\<close>. \<open>marshal\<close> stands for \<open>json.Marshal\<close> on an
  order and \<open>orders_topic\<close> for the configured topic name.
\<close>

datatype error =
    ErrStoreUnavailable
  | ErrDuplicatedKey
  | ErrRecordNotFound
  | ErrPublish
  | ErrExchange
  | FailedToCreateOrder error
  | FailedToCreateOutboxEvent error
  | FailedToGetOrder error
  | CannotTransition OrderStatus
  | FailedToUpdateOrderStatus error
  | TradeFailedAndUpdateFailed error error
  | TradeExecutionFailed error

type_synonym 'a result = "error + 'a"

datatype message_value = OrderValue Order | EventValue OutboxEvent

record publish_call =
  topic :: string
  key :: string
  val :: message_value
  delivered :: bool

record env =
  db_ok :: "nat \<Rightarrow> bool"
  pub_ok :: "nat \<Rightarrow> bool"
  exch_ok :: "nat \<Rightarrow> bool"
  clock :: "nat \<Rightarrow> time"
  marshal :: "Order \<Rightarrow> string"
  orders_topic :: string

text \<open>
  The state: the two tables in storage order, the sequence behind the auto-increment
  key of \<open>outbox_events\<close>, the number of store calls made so far, the publish calls made
  so far with their outcomes, the orders handed to the exchange so far, and the number
  of clock readings.

  The repository goes through gorm, which manages three columns by itself: the
  auto-increment key of an outbox event, a \<open>created_at\<close> that is still the zero time
  on insert (filled with the time of the insert), and \<open>updated_at\<close>, which \<open>Save\<close>
  overwrites with the time of the update, in the row and in the struct the caller
  holds. A call that does not reach the database writes nothing. Orders reach
  \<open>CreateOrder\<close> from \<open>NewOrder\<close> with both times set, and are stored as they are.
\<close>

record world =
  orders :: "Order list"
  outbox :: "OutboxEvent list"
  next_event_id :: "64 word"
  db_calls :: nat
  bus :: "publish_call list"
  trades :: "Order list"
  ticks :: nat

definition time_Now :: "env \<Rightarrow> world \<Rightarrow> time \<times> world" where
  "time_Now env w = (clock env (ticks w), w\<lparr>ticks := Suc (ticks w)\<rparr>)"


subsection \<open>PostgresRepository (internal/infrastructure/persistence/postgres.go)\<close>

definition CreateOrder :: "env \<Rightarrow> world \<Rightarrow> Order \<Rightarrow> unit result \<times> world" where
  "CreateOrder env w ord =
     (let w1 = w\<lparr>db_calls := Suc (db_calls w)\<rparr> in
      if \<not> db_ok env (db_calls w) then (Inl ErrStoreUnavailable, w1)
      else if find (\<lambda>r. ID r = ID ord) (orders w) \<noteq> None then (Inl ErrDuplicatedKey, w1)
      else (Inr (), w1\<lparr>orders := orders w @ [ord]\<rparr>))"

definition GetOrder :: "env \<Rightarrow> world \<Rightarrow> string \<Rightarrow> Order result \<times> world" where
  "GetOrder env w oid =
     (let w1 = w\<lparr>db_calls := Suc (db_calls w)\<rparr> in
      if \<not> db_ok env (db_calls w) then (Inl ErrStoreUnavailable, w1)
      else (case find (\<lambda>r. ID r = oid) (orders w) of
              None \<Rightarrow> (Inl ErrRecordNotFound, w1)
            | Some r \<Rightarrow> (Inr r, w1)))"

text \<open>
  \<open>Save\<close> sets \<open>UpdatedAt\<close> to the current time and writes every column of the row
  with the order's key, or inserts the row. The caller passes a pointer, so it sees the
  new \<open>UpdatedAt\<close> too: on success the model returns the order as \<open>Save\<close> left it.
\<close>

definition UpdateOrder :: "env \<Rightarrow> world \<Rightarrow> Order \<Rightarrow> Order result \<times> world" where
  "UpdateOrder env w ord =
     (let w1 = w\<lparr>db_calls := Suc (db_calls w)\<rparr> in
      if \<not> db_ok env (db_calls w) then (Inl ErrStoreUnavailable, w1)
      else (case time_Now env w1 of (now, w2) \<Rightarrow>
              let saved = ord\<lparr>UpdatedAt := now\<rparr> in
              if find (\<lambda>r. ID r = ID ord) (orders w) = None
                then (Inr saved, w2\<lparr>orders := orders w @ [saved]\<rparr>)
              else (Inr saved,
                    w2\<lparr>orders := map (\<lambda>r. if ID r = ID ord then saved else r) (orders w)\<rparr>)))"

text \<open>
  \<open>Create\<close> on an outbox event assigns the next key and fills a zero \<open>CreatedAt\<close> with
  the current time.
\<close>

definition CreateOutboxEvent :: "env \<Rightarrow> world \<Rightarrow> OutboxEvent \<Rightarrow> unit result \<times> world" where
  "CreateOutboxEvent env w event =
     (let w1 = w\<lparr>db_calls := Suc (db_calls w)\<rparr> in
      if \<not> db_ok env (db_calls w) then (Inl ErrStoreUnavailable, w1)
      else (case time_Now env w1 of (now, w2) \<Rightarrow>
              (Inr (),
               w2\<lparr>outbox := outbox w @
                      [event\<lparr>EventID := next_event_id w,
                             EventCreatedAt := (if EventCreatedAt event = 0 then now
                                                else EventCreatedAt event)\<rparr>],
                   next_event_id := next_event_id w + 1\<rparr>)))"

text \<open>
  \<open>WHERE processed = false ORDER BY created_at ASC LIMIT limit\<close>. Rows with equal
  \<open>created_at\<close> come in storage order here (the sort is stable); SQL leaves their order
  open. The source calls this with the limit 100 only.
\<close>

definition GetUnprocessedOutboxEvents ::
  "env \<Rightarrow> world \<Rightarrow> nat \<Rightarrow> OutboxEvent list result \<times> world" where
  "GetUnprocessedOutboxEvents env w limit =
     (let w1 = w\<lparr>db_calls := Suc (db_calls w)\<rparr> in
      if \<not> db_ok env (db_calls w) then (Inl ErrStoreUnavailable, w1)
      else (Inr (take limit (sort_key EventCreatedAt
                               (filter (\<lambda>e. Processed e = False) (outbox w)))), w1))"

definition MarkOutboxEventProcessed :: "env \<Rightarrow> world \<Rightarrow> 64 word \<Rightarrow> unit result \<times> world" where
  "MarkOutboxEventProcessed env w eid =
     (case time_Now env w of (now, w0) \<Rightarrow>
        let w1 = w0\<lparr>db_calls := Suc (db_calls w0)\<rparr> in
        if \<not> db_ok env (db_calls w0) then (Inl ErrStoreUnavailable, w1)
        else (Inr (), w1\<lparr>outbox :=
                map (\<lambda>e. if EventID e = eid
                          then e\<lparr>Processed := True, ProcessedAt := Some now\<rparr> else e)
                    (outbox w0)\<rparr>))"


subsection \<open>KafkaPool (internal/infrastructure/messaging/kafka_pool.go) and the exchange\<close>

definition PublishOrderEvent :: "env \<Rightarrow> world \<Rightarrow> Order \<Rightarrow> unit result \<times> world" where
  "PublishOrderEvent env w event =
     (let ok = pub_ok env (length (bus w));
          w1 = w\<lparr>bus := bus w @ [\<lparr>topic = orders_topic env, key = ID event,
                                  val = OrderValue event, delivered = ok\<rparr>]\<rparr>
      in if ok then (Inr (), w1) else (Inl ErrPublish, w1))"

definition PublishGenericEvent ::
  "env \<Rightarrow> world \<Rightarrow> string \<Rightarrow> string \<Rightarrow> message_value \<Rightarrow> unit result \<times> world" where
  "PublishGenericEvent env w tp k v =
     (let ok = pub_ok env (length (bus w));
          w1 = w\<lparr>bus := bus w @ [\<lparr>topic = tp, key = k, val = v, delivered = ok\<rparr>]\<rparr>
      in if ok then (Inr (), w1) else (Inl ErrPublish, w1))"

definition ExecuteTrade :: "env \<Rightarrow> world \<Rightarrow> Order \<Rightarrow> unit result \<times> world" where
  "ExecuteTrade env w ord =
     (let w1 = w\<lparr>trades := trades w @ [ord]\<rparr> in
      if exch_ok env (length (trades w)) then (Inr (), w1) else (Inl ErrExchange, w1))"


section \<open>TradingOrchestrator (internal/application/orchestrator.go)\<close>

text \<open>
  \<open>mustMarshal\<close> panics when \<open>json.Marshal\<close> fails; on an \<open>Order\<close>, whose fields are
  strings, finite numbers and times, it does not fail. The same holds for the
  \<open>json.Marshal\<close> inside the two publish functions, so their only error is that of
  \<open>WriteMessages\<close>.
\<close>

definition mustMarshal :: "env \<Rightarrow> Order \<Rightarrow> string" where
  "mustMarshal env v = marshal env v"

definition SubmitOrder :: "env \<Rightarrow> world \<Rightarrow> Order \<Rightarrow> unit result \<times> world" where
  "SubmitOrder env w ord =
     (case CreateOrder env w ord of
        (Inl err, w1) \<Rightarrow> (Inl (FailedToCreateOrder err), w1)
      | (Inr _, w1) \<Rightarrow>
          let event = \<lparr> EventID = 0, Aggregate = ''Order'', AggregateID = ID ord,
                        EventType = ''OrderSubmitted'', Payload = mustMarshal env ord,
                        Processed = False, EventCreatedAt = 0, ProcessedAt = None \<rparr>
          in (case CreateOutboxEvent env w1 event of
                (Inl err, w2) \<Rightarrow> (Inl (FailedToCreateOutboxEvent err), w2)
              | (Inr _, w2) \<Rightarrow> (Inr (), w2)))"

text \<open>
  In \<open>ProcessOrder\<close> the variable \<open>order\<close> is one pointer throughout: after the first
  \<open>UpdateOrder\<close> it is the order as \<open>Save\<close> left it (\<open>ord1\<close>), and that is what the
  exchange receives and what the later assignments change.
\<close>

definition ProcessOrder :: "env \<Rightarrow> world \<Rightarrow> string \<Rightarrow> unit result \<times> world" where
  "ProcessOrder env w orderID =
     (case GetOrder env w orderID of
        (Inl err, w1) \<Rightarrow> (Inl (FailedToGetOrder err), w1)
      | (Inr ord, w1) \<Rightarrow>
          if \<not> CanTransitionTo ord StatusExecuting
          then (Inl (CannotTransition (Status ord)), w1)
          else
            (case UpdateOrder env w1 (ord\<lparr>Status := StatusExecuting\<rparr>) of
               (Inl err, w2) \<Rightarrow> (Inl (FailedToUpdateOrderStatus err), w2)
             | (Inr ord1, w2) \<Rightarrow>
                 (case ExecuteTrade env w2 ord1 of
                    (Inl err, w3) \<Rightarrow>
                      (case time_Now env w3 of (now, w4) \<Rightarrow>
                         (case UpdateOrder env w4 (ord1\<lparr>Status := StatusFailed,
                                                         UpdatedAt := now\<rparr>) of
                            (Inl updateErr, w5) \<Rightarrow>
                              (Inl (TradeFailedAndUpdateFailed updateErr err), w5)
                          | (Inr ord2, w5) \<Rightarrow> (Inl (TradeExecutionFailed err), w5)))
                  | (Inr _, w3) \<Rightarrow>
                      (case time_Now env w3 of (now, w4) \<Rightarrow>
                         (case UpdateOrder env w4 (ord1\<lparr>Status := StatusCompleted,
                                                         UpdatedAt := now\<rparr>) of
                            (Inl err, w5) \<Rightarrow> (Inl (FailedToUpdateOrderStatus err), w5)
                          | (Inr ord2, w5) \<Rightarrow>
                              (case PublishOrderEvent env w5 ord2 of
                                 (_, w6) \<Rightarrow> (Inr (), w6)))))))"

text \<open>
  The relay. \<open>relay_events\<close> is the loop over the fetched events, \<open>relay_cycle\<close> the body
  of the ticker case of \<open>StartOutboxRelay\<close>, and \<open>StartOutboxRelay env w n\<close> the goroutine
  that sees \<open>n\<close> ticks before its context is cancelled. Errors are logged and dropped.
\<close>

fun relay_events :: "env \<Rightarrow> world \<Rightarrow> OutboxEvent list \<Rightarrow> world" where
  "relay_events env w [] = w"
| "relay_events env w (event # rest) =
     (case PublishGenericEvent env w ''nexus.events'' (AggregateID event) (EventValue event) of
        (Inl err, w1) \<Rightarrow> relay_events env w1 rest
      | (Inr _, w1) \<Rightarrow>
          (case MarkOutboxEventProcessed env w1 (EventID event) of
             (_, w2) \<Rightarrow> relay_events env w2 rest))"

definition relay_cycle :: "env \<Rightarrow> world \<Rightarrow> world" where
  "relay_cycle env w =
     (case GetUnprocessedOutboxEvents env w 100 of
        (Inl err, w1) \<Rightarrow> w1
      | (Inr events, w1) \<Rightarrow> relay_events env w1 events)"

fun StartOutboxRelay :: "env \<Rightarrow> world \<Rightarrow> nat \<Rightarrow> world" where
  "StartOutboxRelay env w 0 = w"
| "StartOutboxRelay env w (Suc n) = StartOutboxRelay env (relay_cycle env w) n"


section \<open>The HTTP handler (internal/infrastructure/http)\<close>

text \<open>
  \<open>createOrder\<close> gets the outcome of \<open>c.Bind\<close>: \<open>None\<close> when the body does not decode,
  the decoded fields otherwise.
\<close>

record create_request =
  req_ID :: string
  req_Symbol :: string
  req_Side :: string
  req_Type :: string
  req_Quantity :: real
  req_Price :: real

datatype response = JSONError nat string | JSONOrder nat Order

definition createOrder :: "env \<Rightarrow> world \<Rightarrow> create_request option \<Rightarrow> response \<times> world" where
  "createOrder env w bound =
     (case bound of
        None \<Rightarrow> (JSONError 400 ''Invalid request body'', w)
      | Some req \<Rightarrow>
          (case time_Now env w of (now, w0) \<Rightarrow>
             let ord = NewOrder (req_ID req) (req_Symbol req) (req_Side req) (req_Type req)
                                (req_Quantity req) (req_Price req) now in
             if \<not> IsValid ord then (JSONError 400 ''Invalid order data'', w0)
             else (case SubmitOrder env w0 ord of
                     (Inl err, w1) \<Rightarrow> (JSONError 500 ''Failed to submit order'', w1)
                   | (Inr _, w1) \<Rightarrow> (JSONOrder 202 ord, w1))))"


section \<open>Runs of the whole service\<close>

text \<open>
  The handler, the workers and the relay run side by side on one store. A run is a
  sequence of their units of work: a request handled, an order taken from the queue by
  a worker (\<open>StartWorkerPool\<close> logs the error of \<open>ProcessOrder\<close> and goes on), a relay
  cycle.
\<close>

datatype action = Request "create_request option" | Work string | Tick

fun step :: "env \<Rightarrow> world \<Rightarrow> action \<Rightarrow> world" where
  "step env w (Request bound) = snd (createOrder env w bound)"
| "step env w (Work orderID) = snd (ProcessOrder env w orderID)"
| "step env w Tick = relay_cycle env w"

fun run :: "env \<Rightarrow> world \<Rightarrow> action list \<Rightarrow> world" where
  "run env w [] = w"
| "run env w (a # as) = run env (step env w a) as"

definition empty_world :: world where
  "empty_world = \<lparr> orders = [], outbox = [], next_event_id = 1, db_calls = 0,
                   bus = [], trades = [], ticks = 0 \<rparr>"


section \<open>Concrete scenarios\<close>

text \<open>
  An environment given by the outcomes of the store, bus and exchange calls; the clock
  reads 1000, 1001, ... and the serialisation of an order is abbreviated to its id.
\<close>

definition scenario_env :: "(nat \<Rightarrow> bool) \<Rightarrow> (nat \<Rightarrow> bool) \<Rightarrow> (nat \<Rightarrow> bool) \<Rightarrow> env" where
  "scenario_env d p x =
     \<lparr> db_ok = d, pub_ok = p, exch_ok = x, clock = (\<lambda>n. 1000 + int n),
       marshal = (\<lambda>ord. ID ord), orders_topic = ''nexus.orders'' \<rparr>"

definition all_ok :: "nat \<Rightarrow> bool" where
  "all_ok n = True"

definition order_O1 :: Order where
  "order_O1 = NewOrder ''O1'' ''BTCUSDT'' SideBuy TypeMarket (1/1000) 0 1000"

definition request_of :: "string \<Rightarrow> string \<Rightarrow> OrderType \<Rightarrow> real \<Rightarrow> real \<Rightarrow> create_request" where
  "request_of oid symbol orderType quantity price =
     \<lparr> req_ID = oid, req_Symbol = symbol, req_Side = SideBuy, req_Type = orderType,
       req_Quantity = quantity, req_Price = price \<rparr>"


definition first_fails :: "nat \<Rightarrow> bool" where
  "first_fails n = (n \<noteq> 0)"

definition second_fails :: "nat \<Rightarrow> bool" where
  "second_fails n = (n \<noteq> 1)"

definition all_fail :: "nat \<Rightarrow> bool" where
  "all_fail n = False"

text \<open>An unprocessed outbox row, and a table holding three of them out of order.\<close>

definition outbox_row :: "64 word \<Rightarrow> string \<Rightarrow> time \<Rightarrow> OutboxEvent" where
  "outbox_row eid oid t =
     \<lparr> EventID = eid, Aggregate = ''Order'', AggregateID = oid, EventType = ''OrderSubmitted'',
       Payload = oid, Processed = False, EventCreatedAt = t, ProcessedAt = None \<rparr>"

definition world_three_rows :: world where
  "world_three_rows =
     empty_world\<lparr>outbox := [outbox_row 3 ''O3'' 30, outbox_row 1 ''O1'' 10, outbox_row 2 ''O2'' 20],
                 next_event_id := 4\<rparr>"


section \<open>Predicates on states\<close>

text \<open>
  \<open>published_ok w eid\<close>: among the publish calls made so far, one handed an outbox event
  with key \<open>eid\<close> to the bus and returned success. \<open>processed_only_after_publish w\<close>:
  every outbox row marked processed has such a call.
\<close>

definition published_ok :: "world \<Rightarrow> 64 word \<Rightarrow> bool" where
  "published_ok w eid =
     list_ex (\<lambda>c. delivered c \<and> (case val c of EventValue e \<Rightarrow> EventID e = eid
                                               | OrderValue ord \<Rightarrow> False)) (bus w)"

definition processed_only_after_publish :: "world \<Rightarrow> bool" where
  "processed_only_after_publish w =
     list_all (\<lambda>r. Processed r \<longrightarrow> published_ok w (EventID r)) (outbox w)"


section \<open>Scenarios of the execution path\<close>

text \<open>
  The store after the request for order O1 was accepted, and a store that answers its
  first four calls only.
\<close>

definition world_O1_pending :: world where
  "world_O1_pending =
     snd (createOrder (scenario_env all_ok all_ok all_ok) empty_world
            (Some (request_of ''O1'' ''BTCUSDT'' TypeMarket (1/1000) 0)))"

definition first_four :: "nat \<Rightarrow> bool" where
  "first_four n = (n < 4)"


section \<open>The state machine\<close>

lemmas status_defs = StatusPending_def StatusExecuting_def StatusCompleted_def StatusFailed_def

lemma transitions_at_unfold:
  "transitions_at s =
     (if s = StatusPending then [StatusExecuting, StatusFailed]
      else if s = StatusExecuting then [StatusCompleted, StatusFailed]
      else [])"
  by (simp add: transitions_at_def transitions_def status_defs)

lemma CanTransitionTo_iff:
  "CanTransitionTo ord t \<longleftrightarrow>
     (Status ord = StatusPending \<and> (t = StatusExecuting \<or> t = StatusFailed)) \<or>
     (Status ord = StatusExecuting \<and> (t = StatusCompleted \<or> t = StatusFailed))"
  by (auto simp: CanTransitionTo_def transitions_at_unfold status_defs)

text \<open>
  Claim C2. \<open>CanTransitionTo\<close> answers true exactly on the four edges
  PENDING\<rightarrow>EXECUTING, PENDING\<rightarrow>FAILED, EXECUTING\<rightarrow>COMPLETED and EXECUTING\<rightarrow>FAILED
  and false on every other pair of a current and a target status; in particular no
  status may move to itself, and nothing leaves COMPLETED or FAILED.
\<close>

theorem CanTransitionTo_exactly_four_edges:
  "(CanTransitionTo ord t \<longleftrightarrow>
      (Status ord, t) \<in> {(StatusPending, StatusExecuting), (StatusPending, StatusFailed),
                         (StatusExecuting, StatusCompleted), (StatusExecuting, StatusFailed)})
   \<and> \<not> CanTransitionTo ord (Status ord)
   \<and> \<not> CanTransitionTo (ord\<lparr>Status := StatusCompleted\<rparr>) t
   \<and> \<not> CanTransitionTo (ord\<lparr>Status := StatusFailed\<rparr>) t"
  by (auto simp: CanTransitionTo_iff status_defs)

text \<open>
  Claim C10. The status is an arbitrary string. Whenever the current status of the
  order is none of the four constants (the empty string, a misspelling, a corrupted
  value), \<open>CanTransitionTo\<close> answers false for every target status.
\<close>

theorem CanTransitionTo_unknown_status:
  "Status ord \<notin> {StatusPending, StatusExecuting, StatusCompleted, StatusFailed}
   \<Longrightarrow> \<not> CanTransitionTo ord t"
  by (auto simp: CanTransitionTo_iff)

theorem CanTransitionTo_unknown_status_witness:
  "Status (NewOrder ''O1'' ''BTCUSDT'' SideBuy TypeMarket 1 0 0 \<lparr>Status := ''''\<rparr>)
     \<notin> {StatusPending, StatusExecuting, StatusCompleted, StatusFailed}
   \<and> \<not> CanTransitionTo (NewOrder ''O1'' ''BTCUSDT'' SideBuy TypeMarket 1 0 0 \<lparr>Status := ''''\<rparr>)
         StatusExecuting"
proof -
  have h: "Status (NewOrder ''O1'' ''BTCUSDT'' SideBuy TypeMarket 1 0 0 \<lparr>Status := ''''\<rparr>)
     \<notin> {StatusPending, StatusExecuting, StatusCompleted, StatusFailed}"
    by (simp add: status_defs)
  from h CanTransitionTo_unknown_status [OF h] show ?thesis by simp
qed


section \<open>Submission\<close>

lemmas repo_defs = CreateOrder_def CreateOutboxEvent_def GetOrder_def UpdateOrder_def
  GetUnprocessedOutboxEvents_def MarkOutboxEventProcessed_def time_Now_def
  PublishOrderEvent_def PublishGenericEvent_def ExecuteTrade_def

text \<open>
  Claim C1 asks that the order row and its OrderSubmitted outbox row become visible
  together or not at all, and that a failed \<open>SubmitOrder\<close> leaves neither. The source
  makes two separate store calls. Evaluated on an empty store where the first store
  call succeeds and the second does not, \<open>SubmitOrder\<close> returns the error of
  \<open>CreateOutboxEvent\<close> while the order row stays in the table and the outbox is empty.
\<close>

theorem SubmitOrder_leaves_order_without_event:
  "SubmitOrder (scenario_env (\<lambda>n. n = 0) all_ok all_ok) empty_world order_O1 =
     (Inl (FailedToCreateOutboxEvent ErrStoreUnavailable),
      empty_world\<lparr>orders := [order_O1], db_calls := 2\<rparr>)"
  by (simp add: SubmitOrder_def repo_defs scenario_env_def empty_world_def Let_def)

text \<open>
  Claim C3. A request whose id is empty, whose symbol is empty or whose quantity is not
  positive is answered with the rejection 400 ``Invalid order data''; no store call is
  made, and the order table and the outbox table are as before.
\<close>

theorem createOrder_rejects_malformed:
  "req_ID req = '''' \<or> req_Symbol req = '''' \<or> req_Quantity req \<le> 0 \<Longrightarrow>
   fst (createOrder env w (Some req)) = JSONError 400 ''Invalid order data''
   \<and> orders (snd (createOrder env w (Some req))) = orders w
   \<and> outbox (snd (createOrder env w (Some req))) = outbox w
   \<and> db_calls (snd (createOrder env w (Some req))) = db_calls w"
  by (auto simp: createOrder_def time_Now_def IsValid_def NewOrder_def Let_def)

theorem createOrder_rejects_malformed_witness:
  "req_ID (request_of '''' ''BTCUSDT'' TypeMarket 1 0) = ''''
   \<and> fst (createOrder (scenario_env all_ok all_ok all_ok) empty_world
            (Some (request_of '''' ''BTCUSDT'' TypeMarket 1 0)))
       = JSONError 400 ''Invalid order data''
   \<and> orders (snd (createOrder (scenario_env all_ok all_ok all_ok) empty_world
            (Some (request_of '''' ''BTCUSDT'' TypeMarket 1 0)))) = []
   \<and> outbox (snd (createOrder (scenario_env all_ok all_ok all_ok) empty_world
            (Some (request_of '''' ''BTCUSDT'' TypeMarket 1 0)))) = []
   \<and> req_Quantity (request_of ''O1'' ''BTCUSDT'' TypeMarket (- 2) 0) \<le> 0
   \<and> fst (createOrder (scenario_env all_ok all_ok all_ok) empty_world
            (Some (request_of ''O1'' ''BTCUSDT'' TypeMarket (- 2) 0)))
       = JSONError 400 ''Invalid order data''"
proof -
  have a: "req_ID (request_of '''' ''BTCUSDT'' TypeMarket 1 0) = ''''"
    by (simp add: request_of_def)
  have b: "req_Quantity (request_of ''O1'' ''BTCUSDT'' TypeMarket (- 2) 0) \<le> 0"
    by (simp add: request_of_def)
  show ?thesis
    using a b
      createOrder_rejects_malformed [of "request_of '''' ''BTCUSDT'' TypeMarket 1 0"
        "scenario_env all_ok all_ok all_ok" empty_world]
      createOrder_rejects_malformed [of "request_of ''O1'' ''BTCUSDT'' TypeMarket (- 2) 0"
        "scenario_env all_ok all_ok all_ok" empty_world]
    by (simp add: empty_world_def)
qed

text \<open>
  Claim C4 asks that a LIMIT order with a zero or negative price be rejected. The
  counterexample: a LIMIT order with price 0, and one with price -5, pass \<open>IsValid\<close>,
  and the handler answers 202 to the first and stores it.
\<close>

theorem limit_order_without_price_accepted:
  "Type (NewOrder ''O1'' ''BTCUSDT'' SideBuy TypeLimit 1 0 1000) = TypeLimit
   \<and> Price (NewOrder ''O1'' ''BTCUSDT'' SideBuy TypeLimit 1 0 1000) \<le> 0
   \<and> IsValid (NewOrder ''O1'' ''BTCUSDT'' SideBuy TypeLimit 1 0 1000)
   \<and> IsValid (NewOrder ''O2'' ''BTCUSDT'' SideBuy TypeLimit 1 (- 5) 1000)
   \<and> fst (createOrder (scenario_env all_ok all_ok all_ok) empty_world
            (Some (request_of ''O1'' ''BTCUSDT'' TypeLimit 1 0)))
       = JSONOrder 202 (NewOrder ''O1'' ''BTCUSDT'' SideBuy TypeLimit 1 0 1000)
   \<and> orders (snd (createOrder (scenario_env all_ok all_ok all_ok) empty_world
            (Some (request_of ''O1'' ''BTCUSDT'' TypeLimit 1 0))))
       = [NewOrder ''O1'' ''BTCUSDT'' SideBuy TypeLimit 1 0 1000]"
  by (simp add: createOrder_def SubmitOrder_def repo_defs scenario_env_def empty_world_def
        all_ok_def request_of_def IsValid_def NewOrder_def Let_def)

text \<open>
  Claim C4, amended. Validation looks at neither the price nor the order type: an order
  is well-formed exactly when its id and symbol are non-empty and its quantity is
  positive, and the handler answers 400 ``Invalid order data'' exactly when one of these
  three fails. So the price is ignored for LIMIT orders as it is for MARKET orders.
\<close>

theorem validation_ignores_price_and_type:
  "(IsValid (NewOrder oid symb side ty q p now) \<longleftrightarrow> oid \<noteq> '''' \<and> symb \<noteq> '''' \<and> 0 < q)
   \<and> (fst (createOrder env w (Some req)) = JSONError 400 ''Invalid order data''
        \<longleftrightarrow> req_ID req = '''' \<or> req_Symbol req = '''' \<or> req_Quantity req \<le> 0)"
  by (auto simp: createOrder_def IsValid_def NewOrder_def Let_def SubmitOrder_def
        repo_defs split: prod.splits sum.splits if_splits)


section \<open>The outbox relay\<close>

lemmas scenario_defs = scenario_env_def all_ok_def empty_world_def world_three_rows_def
  outbox_row_def request_of_def order_O1_def

lemma PublishGenericEvent_bus:
  "bus (snd (PublishGenericEvent env w tp k v)) =
     bus w @ [\<lparr>topic = tp, key = k, val = v, delivered = pub_ok env (length (bus w))\<rparr>]"
  by (simp add: PublishGenericEvent_def Let_def)

lemma PublishGenericEvent_rest:
  "outbox (snd (PublishGenericEvent env w tp k v)) = outbox w"
  "orders (snd (PublishGenericEvent env w tp k v)) = orders w"
  "db_calls (snd (PublishGenericEvent env w tp k v)) = db_calls w"
  "ticks (snd (PublishGenericEvent env w tp k v)) = ticks w"
  "trades (snd (PublishGenericEvent env w tp k v)) = trades w"
  by (simp_all add: PublishGenericEvent_def Let_def)

lemma MarkOutboxEventProcessed_bus:
  "bus (snd (MarkOutboxEventProcessed env w eid)) = bus w"
  by (simp add: MarkOutboxEventProcessed_def time_Now_def Let_def)

lemma relay_events_Cons:
  "relay_events env w (e # rest) =
     (let w1 = snd (PublishGenericEvent env w ''nexus.events'' (AggregateID e) (EventValue e)) in
      if pub_ok env (length (bus w))
      then relay_events env (snd (MarkOutboxEventProcessed env w1 (EventID e))) rest
      else relay_events env w1 rest)"
  by (simp add: PublishGenericEvent_def Let_def split: prod.splits)

declare relay_events.simps(2) [simp del]

lemma relay_events_bus:
  "bus (relay_events env w evs) =
     bus w @ map (\<lambda>i. \<lparr>topic = ''nexus.events'', key = AggregateID (evs ! i),
                        val = EventValue (evs ! i),
                        delivered = pub_ok env (length (bus w) + i)\<rparr>) [0..<length evs]"
proof (induction evs arbitrary: w)
  case Nil
  then show ?case by simp
next
  case (Cons e rest)
  show ?case
    by (simp add: relay_events_Cons Let_def Cons.IH PublishGenericEvent_bus
          MarkOutboxEventProcessed_bus map_upt_Suc del: upt_Suc)
qed

lemma relay_events_bus_vals:
  "map val (bus (relay_events env w evs)) = map val (bus w) @ map EventValue evs"
proof (induction evs arbitrary: w)
  case Nil
  then show ?case by simp
next
  case (Cons e rest)
  show ?case
    by (simp add: relay_events_Cons Let_def Cons.IH PublishGenericEvent_bus
          MarkOutboxEventProcessed_bus)
qed

lemma sort_key_three:
  fixes f :: "'a \<Rightarrow> int"
  assumes m: "mset xs = {#a, b, c#}" and ab: "f a < f b" and bc: "f b < f c"
  shows "sort_key f xs = [a, b, c]"
proof (rule properties_for_sort_key)
  show "mset [a, b, c] = mset xs" using m by simp
  show "sorted (map f [a, b, c])" using ab bc by simp
  fix k assume k: "k \<in> set [a, b, c]"
  have "mset (filter (\<lambda>x. f k = f x) xs) = filter_mset (\<lambda>x. f k = f x) {#a, b, c#}"
    using m by simp
  also have "\<dots> = {#k#}" using k ab bc by auto
  finally have "mset (filter (\<lambda>x. f k = f x) xs) = {#k#}" .
  then have "filter (\<lambda>x. f k = f x) xs = [k]" by (simp only: mset_single_iff)
  moreover have "filter (\<lambda>x. f k = f x) [a, b, c] = [k]" using k ab bc by auto
  ultimately show "filter (\<lambda>x. f k = f x) [a, b, c] = filter (\<lambda>x. f k = f x) xs" by simp
qed

lemma filter_unprocessed_all:
  "list_all (\<lambda>e. \<not> Processed e) xs \<Longrightarrow> filter (\<lambda>e. Processed e = False) xs = xs"
  by (induction xs) auto

lemma take_sorted_oldest:
  fixes f :: "'a \<Rightarrow> int"
  assumes "sorted (map f xs)" "a \<in> set (take n xs)" "b \<in> set xs" "b \<notin> set (take n xs)"
  shows "f a \<le> f b"
proof -
  have "b \<in> set (drop n xs)"
    using assms(3,4) by (metis Un_iff append_take_drop_id set_append)
  moreover have "sorted (map f (take n xs) @ map f (drop n xs))"
    using assms(1) by (metis append_take_drop_id map_append)
  ultimately show ?thesis using assms(2) by (auto simp: sorted_append)
qed

text \<open>
  Claim C5. When the store answers, a relay cycle fetches only rows with
  \<open>processed = false\<close>, at most 100 of them (the batch size the relay passes), sorted
  by \<open>created_at\<close> ascending and such that no unprocessed row left out is older than a
  fetched one; it hands the fetched rows to the publisher in exactly that order. In
  particular, if the table holds three unprocessed rows created at t1 < t2 < t3, in
  whatever storage order, they are published in the order t1, t2, t3.
\<close>

theorem relay_cycle_publishes_oldest_first:
  assumes ok: "db_ok env (db_calls w)"
  shows "\<exists>evs. fst (GetUnprocessedOutboxEvents env w 100) = Inr evs
           \<and> length evs \<le> 100
           \<and> (\<forall>e \<in> set evs. e \<in> set (outbox w) \<and> \<not> Processed e)
           \<and> sorted (map EventCreatedAt evs)
           \<and> (\<forall>r \<in> set (outbox w). \<not> Processed r \<and> r \<notin> set evs \<longrightarrow>
                 (\<forall>e \<in> set evs. EventCreatedAt e \<le> EventCreatedAt r))
           \<and> map val (drop (length (bus w)) (bus (relay_cycle env w))) = map EventValue evs
           \<and> (\<forall>e1 e2 e3. mset (outbox w) = {#e1, e2, e3#}
                 \<and> \<not> Processed e1 \<and> \<not> Processed e2 \<and> \<not> Processed e3
                 \<and> EventCreatedAt e1 < EventCreatedAt e2 \<and> EventCreatedAt e2 < EventCreatedAt e3
                 \<longrightarrow> evs = [e1, e2, e3])"
proof -
  let ?un = "filter (\<lambda>e. Processed e = False) (outbox w)"
  let ?evs = "take 100 (sort_key EventCreatedAt ?un)"
  have fetch: "GetUnprocessedOutboxEvents env w 100 = (Inr ?evs, w\<lparr>db_calls := Suc (db_calls w)\<rparr>)"
    using ok by (simp add: GetUnprocessedOutboxEvents_def Let_def)
  have len: "length ?evs \<le> 100" by simp
  have sub: "\<forall>e \<in> set ?evs. e \<in> set (outbox w) \<and> \<not> Processed e"
  proof
    fix e assume "e \<in> set ?evs"
    then have "e \<in> set (sort_key EventCreatedAt ?un)" by (rule in_set_takeD)
    then show "e \<in> set (outbox w) \<and> \<not> Processed e" by simp
  qed
  have srt: "sorted (map EventCreatedAt ?evs)"
  proof -
    have "sorted (take 100 (map EventCreatedAt (sort_key EventCreatedAt ?un)))"
      by (intro sorted_wrt_take) simp
    then show ?thesis by (simp only: take_map)
  qed
  have old: "\<forall>r \<in> set (outbox w). \<not> Processed r \<and> r \<notin> set ?evs \<longrightarrow>
                 (\<forall>e \<in> set ?evs. EventCreatedAt e \<le> EventCreatedAt r)"
  proof (intro ballI impI)
    fix r e assume r: "r \<in> set (outbox w)" "\<not> Processed r \<and> r \<notin> set ?evs" and e: "e \<in> set ?evs"
    have "r \<in> set (sort_key EventCreatedAt ?un)" using r by simp
    with e r show "EventCreatedAt e \<le> EventCreatedAt r"
      using take_sorted_oldest [of EventCreatedAt "sort_key EventCreatedAt ?un" e 100 r]
      by simp
  qed
  have pub: "map val (drop (length (bus w)) (bus (relay_cycle env w))) = map EventValue ?evs"
  proof -
    have "map val (bus (relay_cycle env w)) = map val (bus w) @ map EventValue ?evs"
      by (simp add: relay_cycle_def fetch relay_events_bus_vals)
    then have "drop (length (bus w)) (map val (bus (relay_cycle env w))) = map EventValue ?evs"
      by simp
    then show ?thesis by (simp only: drop_map)
  qed
  have three: "\<forall>e1 e2 e3. mset (outbox w) = {#e1, e2, e3#}
                 \<and> \<not> Processed e1 \<and> \<not> Processed e2 \<and> \<not> Processed e3
                 \<and> EventCreatedAt e1 < EventCreatedAt e2 \<and> EventCreatedAt e2 < EventCreatedAt e3
                 \<longrightarrow> ?evs = [e1, e2, e3]"
  proof (intro allI impI)
    fix e1 e2 e3
    assume h: "mset (outbox w) = {#e1, e2, e3#}
                 \<and> \<not> Processed e1 \<and> \<not> Processed e2 \<and> \<not> Processed e3
                 \<and> EventCreatedAt e1 < EventCreatedAt e2 \<and> EventCreatedAt e2 < EventCreatedAt e3"
    then have "mset (outbox w) = mset [e1, e2, e3]" by simp
    then have "set (outbox w) = set [e1, e2, e3]" by (rule mset_eq_setD)
    then have "set (outbox w) = {e1, e2, e3}" by simp
    with h have "list_all (\<lambda>e. \<not> Processed e) (outbox w)" by (auto simp: list_all_iff)
    then have "?un = outbox w" by (rule filter_unprocessed_all)
    moreover have "sort_key EventCreatedAt (outbox w) = [e1, e2, e3]"
      using h by (intro sort_key_three) auto
    ultimately show "?evs = [e1, e2, e3]" by simp
  qed
  show ?thesis
  proof (intro exI conjI)
    show "fst (GetUnprocessedOutboxEvents env w 100) = Inr ?evs" by (simp add: fetch)
    show "length ?evs \<le> 100" by (rule len)
    show "\<forall>e \<in> set ?evs. e \<in> set (outbox w) \<and> \<not> Processed e" by (rule sub)
    show "sorted (map EventCreatedAt ?evs)" by (rule srt)
    show "\<forall>r \<in> set (outbox w). \<not> Processed r \<and> r \<notin> set ?evs \<longrightarrow>
                 (\<forall>e \<in> set ?evs. EventCreatedAt e \<le> EventCreatedAt r)" by (rule old)
    show "map val (drop (length (bus w)) (bus (relay_cycle env w))) = map EventValue ?evs"
      by (rule pub)
    show "\<forall>e1 e2 e3. mset (outbox w) = {#e1, e2, e3#}
                 \<and> \<not> Processed e1 \<and> \<not> Processed e2 \<and> \<not> Processed e3
                 \<and> EventCreatedAt e1 < EventCreatedAt e2 \<and> EventCreatedAt e2 < EventCreatedAt e3
                 \<longrightarrow> ?evs = [e1, e2, e3]" by (rule three)
  qed
qed

theorem relay_cycle_publishes_oldest_first_witness:
  "db_ok (scenario_env all_ok all_ok all_ok) (db_calls world_three_rows)
   \<and> map val (drop (length (bus world_three_rows))
                (bus (relay_cycle (scenario_env all_ok all_ok all_ok) world_three_rows)))
       = [EventValue (outbox_row 1 ''O1'' 10), EventValue (outbox_row 2 ''O2'' 20),
          EventValue (outbox_row 3 ''O3'' 30)]"
proof -
  let ?env = "scenario_env all_ok all_ok all_ok"
  have ok: "db_ok ?env (db_calls world_three_rows)" by (simp add: scenario_defs)
  from relay_cycle_publishes_oldest_first [OF ok] obtain evs where
    p: "map val (drop (length (bus world_three_rows)) (bus (relay_cycle ?env world_three_rows)))
          = map EventValue evs"
    and t: "\<forall>e1 e2 e3. mset (outbox world_three_rows) = {#e1, e2, e3#}
                 \<and> \<not> Processed e1 \<and> \<not> Processed e2 \<and> \<not> Processed e3
                 \<and> EventCreatedAt e1 < EventCreatedAt e2 \<and> EventCreatedAt e2 < EventCreatedAt e3
                 \<longrightarrow> evs = [e1, e2, e3]"
    by blast
  have "evs = [outbox_row 1 ''O1'' 10, outbox_row 2 ''O2'' 20, outbox_row 3 ''O3'' 30]"
    by (rule t [rule_format]) (simp add: scenario_defs)
  with p ok show ?thesis by simp
qed

lemma MarkOutboxEventProcessed_outbox:
  "outbox (snd (MarkOutboxEventProcessed env w eid)) =
     (if db_ok env (db_calls w)
      then map (\<lambda>e. if EventID e = eid
                     then e\<lparr>Processed := True, ProcessedAt := Some (clock env (ticks w))\<rparr> else e)
               (outbox w)
      else outbox w)"
  by (simp add: MarkOutboxEventProcessed_def time_Now_def Let_def)

lemma relay_events_untouched:
  "r \<in> set (outbox w) \<Longrightarrow>
   (\<forall>i<length evs. EventID (evs ! i) = EventID r \<longrightarrow> \<not> pub_ok env (length (bus w) + i)) \<Longrightarrow>
   r \<in> set (outbox (relay_events env w evs))"
proof (induction evs arbitrary: w)
  case Nil
  then show ?case by simp
next
  case (Cons e rest)
  let ?w1 = "snd (PublishGenericEvent env w ''nexus.events'' (AggregateID e) (EventValue e))"
  from Cons.prems(2) have h0: "EventID e = EventID r \<longrightarrow> \<not> pub_ok env (length (bus w))"
    and hs: "\<forall>i<length rest. EventID (rest ! i) = EventID r \<longrightarrow> \<not> pub_ok env (length (bus ?w1) + i)"
    by (simp_all add: All_less_Suc2 PublishGenericEvent_bus)
  show ?case
  proof (cases "pub_ok env (length (bus w))")
    case False
    have "r \<in> set (outbox ?w1)" using Cons.prems(1) by (simp add: PublishGenericEvent_rest)
    from Cons.IH [OF this hs] False show ?thesis by (simp add: relay_events_Cons Let_def)
  next
    case True
    let ?w2 = "snd (MarkOutboxEventProcessed env ?w1 (EventID e))"
    from True h0 have ne: "EventID e \<noteq> EventID r" by blast
    have "r \<in> set (outbox ?w2)"
      using Cons.prems(1) ne
      by (auto simp: MarkOutboxEventProcessed_outbox PublishGenericEvent_rest image_iff intro!: bexI [of _ r])
    moreover have "\<forall>i<length rest. EventID (rest ! i) = EventID r \<longrightarrow> \<not> pub_ok env (length (bus ?w2) + i)"
      using hs by (simp add: MarkOutboxEventProcessed_bus)
    ultimately have "r \<in> set (outbox (relay_events env ?w2 rest))" by (rule Cons.IH)
    with True show ?thesis by (simp add: relay_events_Cons Let_def)
  qed
qed

lemma relay_events_row_kept:
  "r \<in> set (outbox w) \<Longrightarrow>
   r \<in> set (outbox (relay_events env w evs))
   \<or> (\<exists>t. r\<lparr>Processed := True, ProcessedAt := Some t\<rparr> \<in> set (outbox (relay_events env w evs)))"
proof (induction evs arbitrary: w r)
  case Nil
  then show ?case by simp
next
  case (Cons e rest)
  let ?w1 = "snd (PublishGenericEvent env w ''nexus.events'' (AggregateID e) (EventValue e))"
  let ?w2 = "snd (MarkOutboxEventProcessed env ?w1 (EventID e))"
  show ?case
  proof (cases "pub_ok env (length (bus w))")
    case False
    have "r \<in> set (outbox ?w1)" using Cons.prems by (simp add: PublishGenericEvent_rest)
    from Cons.IH [OF this] False show ?thesis by (simp add: relay_events_Cons Let_def)
  next
    case True
    have "r \<in> set (outbox ?w2) \<or> (\<exists>t. r\<lparr>Processed := True, ProcessedAt := Some t\<rparr> \<in> set (outbox ?w2))"
      using Cons.prems
      by (auto simp: MarkOutboxEventProcessed_outbox PublishGenericEvent_rest image_iff)
    then show ?thesis
    proof
      assume "r \<in> set (outbox ?w2)"
      from Cons.IH [OF this] True show ?thesis by (simp add: relay_events_Cons Let_def)
    next
      assume "\<exists>t. r\<lparr>Processed := True, ProcessedAt := Some t\<rparr> \<in> set (outbox ?w2)"
      then obtain t where "r\<lparr>Processed := True, ProcessedAt := Some t\<rparr> \<in> set (outbox ?w2)" ..
      from Cons.IH [OF this] True show ?thesis by (auto simp add: relay_events_Cons Let_def)
    qed
  qed
qed

lemma relay_events_marked:
  "\<forall>n. db_ok env n \<Longrightarrow> r \<in> set (outbox w) \<Longrightarrow> i < length evs \<Longrightarrow>
   EventID (evs ! i) = EventID r \<Longrightarrow> pub_ok env (length (bus w) + i) \<Longrightarrow>
   \<exists>t. r\<lparr>Processed := True, ProcessedAt := Some t\<rparr> \<in> set (outbox (relay_events env w evs))"
proof (induction evs arbitrary: w r i)
  case Nil
  then show ?case by simp
next
  case (Cons e rest)
  let ?w1 = "snd (PublishGenericEvent env w ''nexus.events'' (AggregateID e) (EventValue e))"
  let ?w2 = "snd (MarkOutboxEventProcessed env ?w1 (EventID e))"
  show ?case
  proof (cases i)
    case 0
    with Cons.prems have ok: "pub_ok env (length (bus w))" and eid: "EventID e = EventID r" by simp_all
    have "r\<lparr>Processed := True, ProcessedAt := Some (clock env (ticks w))\<rparr> \<in> set (outbox ?w2)"
      using Cons.prems(1,2) eid
      by (auto simp: MarkOutboxEventProcessed_outbox PublishGenericEvent_rest image_iff intro!: bexI [of _ r])
    from relay_events_row_kept [OF this, where env = env and evs = rest] ok show ?thesis
      by (auto simp add: relay_events_Cons Let_def)
  next
    case (Suc j)
    with Cons.prems have j: "j < length rest" "EventID (rest ! j) = EventID r"
      and pj: "pub_ok env (length (bus ?w1) + j)" "pub_ok env (length (bus ?w2) + j)"
      by (simp_all add: PublishGenericEvent_bus MarkOutboxEventProcessed_bus)
    show ?thesis
    proof (cases "pub_ok env (length (bus w))")
      case False
      have "r \<in> set (outbox ?w1)" using Cons.prems(2) by (simp add: PublishGenericEvent_rest)
      from Cons.IH [OF Cons.prems(1) this j pj(1)] False show ?thesis
        by (simp add: relay_events_Cons Let_def)
    next
      case True
      have "r \<in> set (outbox ?w2) \<or> (\<exists>t. r\<lparr>Processed := True, ProcessedAt := Some t\<rparr> \<in> set (outbox ?w2))"
        using Cons.prems(2)
        by (auto simp: MarkOutboxEventProcessed_outbox PublishGenericEvent_rest image_iff)
      then show ?thesis
      proof
        assume "r \<in> set (outbox ?w2)"
        from Cons.IH [OF Cons.prems(1) this j pj(2)] True show ?thesis
          by (simp add: relay_events_Cons Let_def)
      next
        assume "\<exists>t. r\<lparr>Processed := True, ProcessedAt := Some t\<rparr> \<in> set (outbox ?w2)"
        then obtain t where t: "r\<lparr>Processed := True, ProcessedAt := Some t\<rparr> \<in> set (outbox ?w2)" ..
        have "EventID (rest ! j) = EventID (r\<lparr>Processed := True, ProcessedAt := Some t\<rparr>)"
          using j by simp
        from Cons.IH [OF Cons.prems(1) t j(1) this pj(2)] True show ?thesis
          by (auto simp add: relay_events_Cons Let_def)
      qed
    qed
  qed
qed

lemma relay_events_ids:
  "map EventID (outbox (relay_events env w evs)) = map EventID (outbox w)"
proof (induction evs arbitrary: w)
  case Nil
  then show ?case by simp
next
  case (Cons e rest)
  show ?case
    by (simp add: relay_events_Cons Let_def Cons.IH MarkOutboxEventProcessed_outbox
          PublishGenericEvent_rest comp_def)
qed

lemma distinct_fetch:
  assumes "distinct (map f xs)"
  shows "distinct (map f (take n (sort_key g (filter P xs))))"
proof -
  have "distinct (map f (filter P xs))" using assms by (rule distinct_map_filter)
  moreover have "mset (map f (sort_key g (filter P xs))) = mset (map f (filter P xs))"
    by simp
  ultimately have "distinct (map f (sort_key g (filter P xs)))"
    by (metis mset_eq_imp_distinct_iff)
  then have "distinct (take n (map f (sort_key g (filter P xs))))" by (rule distinct_take)
  then show ?thesis by (simp only: take_map)
qed

text \<open>
  Claim C6. Take a relay cycle during which the store answers, on a table whose keys are
  distinct. Every fetched row is handed to the publisher once, whatever happened to the
  rows before it. A row whose publish call fails is still in the table exactly as it was,
  unprocessed; a row whose publish call succeeds is marked processed with a timestamp.
  For a batch of three rows where the second publish fails, the first and third rows are
  marked processed and the second stays unprocessed for the next cycle.
\<close>

theorem relay_publish_failure_isolated:
  assumes db: "\<forall>n. db_ok env n"
      and pk: "distinct (map EventID (outbox w))"
      and fetch: "fst (GetUnprocessedOutboxEvents env w 100) = Inr evs"
      and i: "i < length evs"
  shows "length (bus (relay_cycle env w)) = length (bus w) + length evs
         \<and> map EventID (outbox (relay_cycle env w)) = map EventID (outbox w)
         \<and> (if pub_ok env (length (bus w) + i)
            then \<exists>t. (evs ! i)\<lparr>Processed := True, ProcessedAt := Some t\<rparr>
                       \<in> set (outbox (relay_cycle env w))
            else evs ! i \<in> set (outbox (relay_cycle env w)) \<and> \<not> Processed (evs ! i))"
proof -
  let ?w1 = "w\<lparr>db_calls := Suc (db_calls w)\<rparr>"
  have evs: "evs = take 100 (sort_key EventCreatedAt (filter (\<lambda>e. Processed e = False) (outbox w)))"
    and cyc: "relay_cycle env w = relay_events env ?w1 evs"
    using fetch db by (simp_all add: relay_cycle_def GetUnprocessedOutboxEvents_def Let_def)
  have dist: "distinct (map EventID evs)" unfolding evs using pk by (rule distinct_fetch)
  have mem: "evs ! i \<in> set (outbox ?w1)" and unp: "\<not> Processed (evs ! i)"
  proof -
    have "evs ! i \<in> set evs" using i by simp
    then have "evs ! i \<in> set (sort_key EventCreatedAt (filter (\<lambda>e. Processed e = False) (outbox w)))"
      unfolding evs by (rule in_set_takeD)
    then show "evs ! i \<in> set (outbox ?w1)" and "\<not> Processed (evs ! i)" by simp_all
  qed
  have uniq: "\<forall>j<length evs. EventID (evs ! j) = EventID (evs ! i) \<longrightarrow> j = i"
    using dist i by (auto simp: distinct_conv_nth)
  have "pub_ok env (length (bus w) + i) \<Longrightarrow>
        \<exists>t. (evs ! i)\<lparr>Processed := True, ProcessedAt := Some t\<rparr> \<in> set (outbox (relay_cycle env w))"
    unfolding cyc using relay_events_marked [OF db mem i] by simp
  moreover have "\<not> pub_ok env (length (bus w) + i) \<Longrightarrow> evs ! i \<in> set (outbox (relay_cycle env w))"
    unfolding cyc using uniq by (intro relay_events_untouched [OF mem]) auto
  ultimately show ?thesis
    using unp by (simp add: cyc relay_events_bus relay_events_ids)
qed

lemma fetch_three_rows:
  "db_ok env 0 \<Longrightarrow> fst (GetUnprocessedOutboxEvents env world_three_rows 100)
     = Inr [outbox_row 1 ''O1'' 10, outbox_row 2 ''O2'' 20, outbox_row 3 ''O3'' 30]"
  by (simp add: GetUnprocessedOutboxEvents_def Let_def world_three_rows_def empty_world_def
        outbox_row_def)

theorem relay_publish_failure_isolated_witness:
  "(\<forall>n. db_ok (scenario_env all_ok second_fails all_ok) n)
   \<and> distinct (map EventID (outbox world_three_rows))
   \<and> fst (GetUnprocessedOutboxEvents (scenario_env all_ok second_fails all_ok) world_three_rows 100)
       = Inr [outbox_row 1 ''O1'' 10, outbox_row 2 ''O2'' 20, outbox_row 3 ''O3'' 30]
   \<and> length (bus (relay_cycle (scenario_env all_ok second_fails all_ok) world_three_rows)) = 3
   \<and> (\<exists>t. (outbox_row 1 ''O1'' 10)\<lparr>Processed := True, ProcessedAt := Some t\<rparr>
           \<in> set (outbox (relay_cycle (scenario_env all_ok second_fails all_ok) world_three_rows)))
   \<and> outbox_row 2 ''O2'' 20
           \<in> set (outbox (relay_cycle (scenario_env all_ok second_fails all_ok) world_three_rows))
   \<and> (\<exists>t. (outbox_row 3 ''O3'' 30)\<lparr>Processed := True, ProcessedAt := Some t\<rparr>
           \<in> set (outbox (relay_cycle (scenario_env all_ok second_fails all_ok) world_three_rows)))"
proof -
  let ?env = "scenario_env all_ok second_fails all_ok"
  let ?evs = "[outbox_row 1 ''O1'' 10, outbox_row 2 ''O2'' 20, outbox_row 3 ''O3'' 30]"
  have db: "\<forall>n. db_ok ?env n" by (simp add: scenario_defs)
  have pk: "distinct (map EventID (outbox world_three_rows))" by (simp add: scenario_defs)
  have f: "fst (GetUnprocessedOutboxEvents ?env world_three_rows 100) = Inr ?evs"
    by (rule fetch_three_rows) (simp add: scenario_defs)
  have b: "length (bus world_three_rows) = 0" "\<And>n. pub_ok ?env n = second_fails n"
    by (simp_all add: scenario_defs)
  from relay_publish_failure_isolated [OF db pk f, of 0]
       relay_publish_failure_isolated [OF db pk f, of 1]
       relay_publish_failure_isolated [OF db pk f, of 2]
  show ?thesis using db pk f by (simp add: b second_fails_def)
qed

lemma published_ok_mono:
  "bus w' = bus w @ new \<Longrightarrow> published_ok w eid \<Longrightarrow> published_ok w' eid"
  by (simp add: published_ok_def)

lemma inv_mono:
  "bus w' = bus w @ new \<Longrightarrow> outbox w' = outbox w \<Longrightarrow>
   processed_only_after_publish w \<Longrightarrow> processed_only_after_publish w'"
  by (auto simp: processed_only_after_publish_def list_all_iff intro: published_ok_mono)

lemma inv_mark:
  assumes "processed_only_after_publish w" "published_ok w eid"
  shows "processed_only_after_publish (snd (MarkOutboxEventProcessed env w eid))"
proof -
  have b: "published_ok (snd (MarkOutboxEventProcessed env w eid)) = published_ok w"
    by (simp add: published_ok_def MarkOutboxEventProcessed_bus fun_eq_iff)
  show ?thesis
    using assms
    by (auto simp: processed_only_after_publish_def b MarkOutboxEventProcessed_outbox list_all_iff)
qed

lemma published_after_publish:
  "pub_ok env (length (bus w)) \<Longrightarrow>
   published_ok (snd (PublishGenericEvent env w tp k (EventValue e))) (EventID e)"
  by (simp add: published_ok_def PublishGenericEvent_bus)

lemma relay_events_inv:
  "processed_only_after_publish w \<Longrightarrow> processed_only_after_publish (relay_events env w evs)"
proof (induction evs arbitrary: w)
  case Nil
  then show ?case by simp
next
  case (Cons e rest)
  let ?w1 = "snd (PublishGenericEvent env w ''nexus.events'' (AggregateID e) (EventValue e))"
  let ?w2 = "snd (MarkOutboxEventProcessed env ?w1 (EventID e))"
  have i1: "processed_only_after_publish ?w1"
    using Cons.prems by (rule inv_mono [rotated 2]) (simp_all add: PublishGenericEvent_bus PublishGenericEvent_rest)
  show ?case
  proof (cases "pub_ok env (length (bus w))")
    case False
    with Cons.IH [OF i1] show ?thesis by (simp add: relay_events_Cons Let_def)
  next
    case True
    then have "published_ok ?w1 (EventID e)" by (rule published_after_publish)
    with i1 have "processed_only_after_publish ?w2" by (rule inv_mark)
    from Cons.IH [OF this] True show ?thesis by (simp add: relay_events_Cons Let_def)
  qed
qed

lemma relay_events_unpublished_untouched:
  assumes r: "r \<in> set (outbox w)"
      and n: "\<not> published_ok (relay_events env w evs) (EventID r)"
  shows "r \<in> set (outbox (relay_events env w evs))"
proof (rule relay_events_untouched [OF r], intro allI impI)
  fix i assume i: "i < length evs" and e: "EventID (evs ! i) = EventID r"
  show "\<not> pub_ok env (length (bus w) + i)"
  proof
    assume ok: "pub_ok env (length (bus w) + i)"
    have "\<lparr>topic = ''nexus.events'', key = AggregateID (evs ! i), val = EventValue (evs ! i),
           delivered = pub_ok env (length (bus w) + i)\<rparr> \<in> set (bus (relay_events env w evs))"
      using i by (simp add: relay_events_bus image_iff del: upt_Suc) (intro disjI2 bexI [of _ i], simp_all)
    then have "published_ok (relay_events env w evs) (EventID r)"
      using ok e unfolding published_ok_def list_ex_iff by (intro bexI) simp_all
    with n show False ..
  qed
qed

lemma relay_cycle_cases:
  "relay_cycle env w = w\<lparr>db_calls := Suc (db_calls w)\<rparr>
   \<or> (\<exists>evs. relay_cycle env w = relay_events env (w\<lparr>db_calls := Suc (db_calls w)\<rparr>) evs)"
  by (auto simp: relay_cycle_def GetUnprocessedOutboxEvents_def Let_def)

lemma createOrder_bus: "bus (snd (createOrder env w bound)) = bus w"
  by (simp add: createOrder_def SubmitOrder_def repo_defs Let_def split: option.splits)

lemma createOrder_outbox:
  "outbox (snd (createOrder env w bound)) = outbox w
   \<or> (\<exists>e. outbox (snd (createOrder env w bound)) = outbox w @ [e] \<and> \<not> Processed e)"
  by (simp add: createOrder_def SubmitOrder_def repo_defs Let_def split: option.splits)

lemma ProcessOrder_outbox: "outbox (snd (ProcessOrder env w oid)) = outbox w"
  by (simp add: ProcessOrder_def repo_defs Let_def split: option.splits)

lemma ProcessOrder_bus: "\<exists>new. bus (snd (ProcessOrder env w oid)) = bus w @ new"
  by (simp add: ProcessOrder_def repo_defs Let_def split: option.splits)

lemma step_bus: "\<exists>new. bus (step env w a) = bus w @ new"
proof (cases a)
  case (Request bound)
  then show ?thesis by (simp add: createOrder_bus)
next
  case (Work oid)
  then show ?thesis by (simp add: ProcessOrder_bus)
next
  case Tick
  then show ?thesis using relay_cycle_cases [of env w] by (auto simp: relay_events_bus)
qed

lemma step_inv:
  assumes "processed_only_after_publish w"
  shows "processed_only_after_publish (step env w a)"
proof (cases a)
  case (Request bound)
  from createOrder_outbox [of env w bound] show ?thesis
  proof
    assume "outbox (snd (createOrder env w bound)) = outbox w"
    with assms Request show ?thesis
      by (simp add: processed_only_after_publish_def published_ok_def createOrder_bus)
  next
    assume "\<exists>e. outbox (snd (createOrder env w bound)) = outbox w @ [e] \<and> \<not> Processed e"
    with assms Request show ?thesis
      by (auto simp: processed_only_after_publish_def published_ok_def createOrder_bus)
  qed
next
  case (Work oid)
  obtain new where "bus (snd (ProcessOrder env w oid)) = bus w @ new"
    using ProcessOrder_bus by blast
  from inv_mono [OF this ProcessOrder_outbox assms] Work show ?thesis by simp
next
  case Tick
  have "processed_only_after_publish (w\<lparr>db_calls := Suc (db_calls w)\<rparr>)"
    using assms by (simp add: processed_only_after_publish_def published_ok_def)
  with Tick relay_cycle_cases [of env w] show ?thesis by (auto intro: relay_events_inv)
qed

lemma step_untouched:
  assumes "r \<in> set (outbox w)" "\<not> published_ok (step env w a) (EventID r)"
  shows "r \<in> set (outbox (step env w a))"
proof (cases a)
  case (Request bound)
  with assms(1) createOrder_outbox [of env w bound] show ?thesis by auto
next
  case (Work oid)
  with assms(1) show ?thesis by (simp add: ProcessOrder_outbox)
next
  case Tick
  let ?w1 = "w\<lparr>db_calls := Suc (db_calls w)\<rparr>"
  have m: "r \<in> set (outbox ?w1)" using assms(1) by simp
  from relay_cycle_cases [of env w] show ?thesis
  proof
    assume "relay_cycle env w = ?w1"
    with Tick assms(1) show ?thesis by simp
  next
    assume "\<exists>evs. relay_cycle env w = relay_events env ?w1 evs"
    then obtain evs where c: "relay_cycle env w = relay_events env ?w1 evs" ..
    with Tick assms(2) have "\<not> published_ok (relay_events env ?w1 evs) (EventID r)" by simp
    with m have "r \<in> set (outbox (relay_events env ?w1 evs))"
      by (rule relay_events_unpublished_untouched)
    with Tick c show ?thesis by simp
  qed
qed

lemma run_bus: "\<exists>new. bus (run env w acts) = bus w @ new"
proof (induction acts arbitrary: w)
  case Nil
  then show ?case by simp
next
  case (Cons a acts)
  obtain n1 where "bus (step env w a) = bus w @ n1" using step_bus by blast
  moreover obtain n2 where "bus (run env (step env w a) acts) = bus (step env w a) @ n2"
    using Cons.IH by blast
  ultimately show ?case by simp
qed

lemma run_inv:
  "processed_only_after_publish w \<Longrightarrow> processed_only_after_publish (run env w acts)"
  by (induction acts arbitrary: w) (simp_all add: step_inv)

lemma run_untouched:
  "r \<in> set (outbox w) \<Longrightarrow> \<not> published_ok (run env w acts) (EventID r) \<Longrightarrow>
   r \<in> set (outbox (run env w acts))"
proof (induction acts arbitrary: w)
  case Nil
  then show ?case by simp
next
  case (Cons a acts)
  obtain new where "bus (run env (step env w a) acts) = bus (step env w a) @ new"
    using run_bus by blast
  with Cons.prems(2) have "\<not> published_ok (step env w a) (EventID r)"
    using published_ok_mono by fastforce
  with Cons.prems(1) have "r \<in> set (outbox (step env w a))" by (rule step_untouched)
  from Cons.IH [OF this] Cons.prems(2) show ?case by simp
qed

lemma StartOutboxRelay_run: "StartOutboxRelay env w n = run env w (replicate n Tick)"
  by (induction n arbitrary: w) simp_all

text \<open>
  Claim C7. Start from any state in which every processed outbox row has a successful
  publish call for its key (the empty store is one). After any sequence of requests,
  worker runs and relay cycles, and after any number of ticks of \<open>StartOutboxRelay\<close>,
  the same holds: no row is marked processed without a publish call for it having
  returned success. And a row for which no publish call has succeeded by the end of the
  run is still in the table exactly as it was, however long the run.
\<close>

theorem processed_only_after_successful_publish:
  assumes "processed_only_after_publish w"
  shows "processed_only_after_publish (run env w acts)
         \<and> processed_only_after_publish (StartOutboxRelay env w n)
         \<and> (\<forall>r \<in> set (outbox w). \<not> published_ok (run env w acts) (EventID r)
               \<longrightarrow> r \<in> set (outbox (run env w acts)))"
  using assms by (auto simp: run_inv StartOutboxRelay_run run_untouched)

theorem processed_only_after_successful_publish_witness:
  "processed_only_after_publish empty_world
   \<and> processed_only_after_publish
        (run (scenario_env all_ok first_fails all_ok) empty_world
           [Request (Some (request_of ''O1'' ''BTCUSDT'' TypeMarket 1 0)), Tick, Tick])
   \<and> map Processed (outbox
        (run (scenario_env all_ok first_fails all_ok) empty_world
           [Request (Some (request_of ''O1'' ''BTCUSDT'' TypeMarket 1 0)), Tick])) = [False]
   \<and> map Processed (outbox
        (run (scenario_env all_ok first_fails all_ok) empty_world
           [Request (Some (request_of ''O1'' ''BTCUSDT'' TypeMarket 1 0)), Tick, Tick])) = [True]
   \<and> processed_only_after_publish world_three_rows
   \<and> outbox_row 2 ''O2'' 20 \<in> set (outbox world_three_rows)
   \<and> \<not> published_ok (run (scenario_env all_ok all_fail all_ok) world_three_rows [Tick, Tick]) 2
   \<and> outbox_row 2 ''O2'' 20
        \<in> set (outbox (run (scenario_env all_ok all_fail all_ok) world_three_rows [Tick, Tick]))"
proof -
  let ?up = "scenario_env all_ok first_fails all_ok"
  let ?down = "scenario_env all_ok all_fail all_ok"
  let ?acts = "[Request (Some (request_of ''O1'' ''BTCUSDT'' TypeMarket 1 0)), Tick, Tick]"
  have e: "processed_only_after_publish empty_world"
    by (simp add: processed_only_after_publish_def scenario_defs)
  have t: "processed_only_after_publish world_three_rows"
    by (simp add: processed_only_after_publish_def scenario_defs)
  have m: "outbox_row 2 ''O2'' 20 \<in> set (outbox world_three_rows)"
    by (simp add: scenario_defs)
  have bus_down: "bus (run ?down world_three_rows [Tick, Tick]) =
      map (\<lambda>r. \<lparr>topic = ''nexus.events'', key = AggregateID r, val = EventValue r, delivered = False\<rparr>)
        [outbox_row 1 ''O1'' 10, outbox_row 2 ''O2'' 20, outbox_row 3 ''O3'' 30,
         outbox_row 1 ''O1'' 10, outbox_row 2 ''O2'' 20, outbox_row 3 ''O3'' 30]"
    by (simp add: relay_cycle_def GetUnprocessedOutboxEvents_def relay_events_Cons
          PublishGenericEvent_def Let_def scenario_defs all_fail_def)
  have n: "\<not> published_ok (run ?down world_three_rows [Tick, Tick]) 2"
    by (simp only: published_ok_def bus_down) simp
  have p1: "map Processed (outbox (run ?up empty_world
              [Request (Some (request_of ''O1'' ''BTCUSDT'' TypeMarket 1 0)), Tick])) = [False]"
    by (simp add: createOrder_def SubmitOrder_def repo_defs relay_cycle_def relay_events_Cons
          IsValid_def NewOrder_def Let_def scenario_defs first_fails_def)
  have p2: "map Processed (outbox (run ?up empty_world ?acts)) = [True]"
    by (simp add: createOrder_def SubmitOrder_def repo_defs relay_cycle_def relay_events_Cons
          IsValid_def NewOrder_def Let_def scenario_defs first_fails_def)
  have i: "EventID (outbox_row 2 ''O2'' 20) = 2" by (simp add: outbox_row_def)
  from processed_only_after_successful_publish [OF t, of ?down "[Tick, Tick]" 0]
  have "\<forall>r \<in> set (outbox world_three_rows).
          \<not> published_ok (run ?down world_three_rows [Tick, Tick]) (EventID r)
          \<longrightarrow> r \<in> set (outbox (run ?down world_three_rows [Tick, Tick]))"
    by (elim conjE)
  moreover have "\<not> published_ok (run ?down world_three_rows [Tick, Tick])
                      (EventID (outbox_row 2 ''O2'' 20))"
    by (subst i) (rule n)
  ultimately
  have u: "outbox_row 2 ''O2'' 20 \<in> set (outbox (run ?down world_three_rows [Tick, Tick]))"
    using m by blast
  from processed_only_after_successful_publish [OF e, of ?up ?acts 0]
  have "processed_only_after_publish (run ?up empty_world ?acts)" by (elim conjE)
  with e t m n p1 p2 u show ?thesis by (intro conjI)
qed


section \<open>The execution path\<close>

lemma world_O1_pending_eq:
  "world_O1_pending =
     \<lparr> orders = [order_O1], outbox = [outbox_row 1 ''O1'' 1001], next_event_id = 2, db_calls = 2,
       bus = [], trades = [], ticks = 2 \<rparr>"
  by (simp add: world_O1_pending_def createOrder_def SubmitOrder_def repo_defs mustMarshal_def
        IsValid_def NewOrder_def Let_def scenario_defs)

lemma find_replaced:
  "find (\<lambda>r. ID r = i) xs = Some a \<Longrightarrow> ID b = i \<Longrightarrow>
   find (\<lambda>r. ID r = i) (map (\<lambda>r. if ID r = i then b else r) xs) = Some b"
  by (induction xs) (auto split: if_splits)

lemma find_ID: "find (\<lambda>r. ID r = i) xs = Some a \<Longrightarrow> ID a = i"
  by (auto simp: find_Some_iff)

lemma GetOrder_found:
  "db_ok env (db_calls w) \<Longrightarrow> find (\<lambda>r. ID r = oid) (orders w) = Some ord \<Longrightarrow>
   GetOrder env w oid = (Inr ord, w\<lparr>db_calls := Suc (db_calls w)\<rparr>)"
  by (simp add: GetOrder_def Let_def)

lemma ProcessOrder_refused:
  assumes "find (\<lambda>r. ID r = oid) (orders w) = Some ord" "\<not> CanTransitionTo ord StatusExecuting"
  shows "fst (ProcessOrder env w oid) =
           (if db_ok env (db_calls w) then Inl (CannotTransition (Status ord))
            else Inl (FailedToGetOrder ErrStoreUnavailable))
         \<and> orders (snd (ProcessOrder env w oid)) = orders w
         \<and> trades (snd (ProcessOrder env w oid)) = trades w"
  using assms by (simp add: ProcessOrder_def GetOrder_def Let_def)

text \<open>
  Claim C8. A worker takes an order that may move to EXECUTING; the store answers its
  three calls and the exchange call fails. Then \<open>ProcessOrder\<close> returns the error
  ``trade execution failed''; the exchange was called exactly once, with the order in
  status EXECUTING as the first update left it; the stored order has status FAILED, with
  the time of that update in \<open>UpdatedAt\<close>; no target status is allowed from it; and any
  later \<open>ProcessOrder\<close> on the same id is refused without touching the order table or
  the exchange.
\<close>

theorem exchange_failure_marks_order_failed:
  assumes found: "find (\<lambda>r. ID r = oid) (orders w) = Some ord"
      and pend: "CanTransitionTo ord StatusExecuting"
      and db: "db_ok env (db_calls w)" "db_ok env (Suc (db_calls w))"
              "db_ok env (Suc (Suc (db_calls w)))"
      and fail: "\<not> exch_ok env (length (trades w))"
  shows "fst (ProcessOrder env w oid) = Inl (TradeExecutionFailed ErrExchange)
         \<and> trades (snd (ProcessOrder env w oid))
             = trades w @ [ord\<lparr>Status := StatusExecuting, UpdatedAt := clock env (ticks w)\<rparr>]
         \<and> find (\<lambda>r. ID r = oid) (orders (snd (ProcessOrder env w oid)))
             = Some (ord\<lparr>Status := StatusFailed, UpdatedAt := clock env (Suc (Suc (ticks w)))\<rparr>)
         \<and> (\<forall>t. \<not> CanTransitionTo
                    (ord\<lparr>Status := StatusFailed, UpdatedAt := clock env (Suc (Suc (ticks w)))\<rparr>) t)
         \<and> (\<forall>env'. fst (ProcessOrder env' (snd (ProcessOrder env w oid)) oid)
                       \<in> {Inl (CannotTransition StatusFailed), Inl (FailedToGetOrder ErrStoreUnavailable)}
                   \<and> orders (snd (ProcessOrder env' (snd (ProcessOrder env w oid)) oid))
                       = orders (snd (ProcessOrder env w oid))
                   \<and> trades (snd (ProcessOrder env' (snd (ProcessOrder env w oid)) oid))
                       = trades (snd (ProcessOrder env w oid)))"
proof -
  let ?o1 = "ord\<lparr>Status := StatusExecuting, UpdatedAt := clock env (ticks w)\<rparr>"
  let ?o2 = "ord\<lparr>Status := StatusFailed, UpdatedAt := clock env (Suc (Suc (ticks w)))\<rparr>"
  let ?rows1 = "map (\<lambda>r. if ID r = oid then ?o1 else r) (orders w)"
  let ?rows2 = "map (\<lambda>r. if ID r = oid then ?o2 else r) ?rows1"
  have id: "ID ord = oid" using found by (rule find_ID)
  have f1: "find (\<lambda>r. ID r = oid) ?rows1 = Some ?o1"
    using found by (rule find_replaced) (simp add: id)
  have f2: "find (\<lambda>r. ID r = oid) ?rows2 = Some ?o2"
    using f1 by (rule find_replaced) (simp add: id)
  have get: "GetOrder env w oid = (Inr ord, w\<lparr>db_calls := Suc (db_calls w)\<rparr>)"
    using db(1) found by (rule GetOrder_found)
  have res: "ProcessOrder env w oid =
               (Inl (TradeExecutionFailed ErrExchange),
                w\<lparr>db_calls := Suc (Suc (Suc (db_calls w))), orders := ?rows2,
                  trades := trades w @ [?o1], ticks := Suc (Suc (Suc (ticks w)))\<rparr>)"
    using pend db fail found f1
    by (simp add: ProcessOrder_def get UpdateOrder_def ExecuteTrade_def time_Now_def Let_def id
          del: map_map)
  have terminal: "\<forall>t. \<not> CanTransitionTo ?o2 t"
    by (simp add: CanTransitionTo_iff status_defs)
  have stored: "find (\<lambda>r. ID r = oid) (orders (snd (ProcessOrder env w oid))) = Some ?o2"
    by (simp add: res f2 del: map_map)
  have again: "\<forall>env'. fst (ProcessOrder env' (snd (ProcessOrder env w oid)) oid)
                       \<in> {Inl (CannotTransition StatusFailed), Inl (FailedToGetOrder ErrStoreUnavailable)}
                   \<and> orders (snd (ProcessOrder env' (snd (ProcessOrder env w oid)) oid))
                       = orders (snd (ProcessOrder env w oid))
                   \<and> trades (snd (ProcessOrder env' (snd (ProcessOrder env w oid)) oid))
                       = trades (snd (ProcessOrder env w oid))"
  proof
    fix env'
    from ProcessOrder_refused [OF stored, of env'] terminal
    show "fst (ProcessOrder env' (snd (ProcessOrder env w oid)) oid)
                       \<in> {Inl (CannotTransition StatusFailed), Inl (FailedToGetOrder ErrStoreUnavailable)}
                   \<and> orders (snd (ProcessOrder env' (snd (ProcessOrder env w oid)) oid))
                       = orders (snd (ProcessOrder env w oid))
                   \<and> trades (snd (ProcessOrder env' (snd (ProcessOrder env w oid)) oid))
                       = trades (snd (ProcessOrder env w oid))"
      by (simp split: if_splits)
  qed
  show ?thesis
  proof (intro conjI)
    show "fst (ProcessOrder env w oid) = Inl (TradeExecutionFailed ErrExchange)" by (simp add: res)
    show "trades (snd (ProcessOrder env w oid)) = trades w @ [?o1]" by (simp add: res)
    show "find (\<lambda>r. ID r = oid) (orders (snd (ProcessOrder env w oid))) = Some ?o2" by (rule stored)
    show "\<forall>t. \<not> CanTransitionTo ?o2 t" by (rule terminal)
    show "\<forall>env'. fst (ProcessOrder env' (snd (ProcessOrder env w oid)) oid)
                       \<in> {Inl (CannotTransition StatusFailed), Inl (FailedToGetOrder ErrStoreUnavailable)}
                   \<and> orders (snd (ProcessOrder env' (snd (ProcessOrder env w oid)) oid))
                       = orders (snd (ProcessOrder env w oid))
                   \<and> trades (snd (ProcessOrder env' (snd (ProcessOrder env w oid)) oid))
                       = trades (snd (ProcessOrder env w oid))" by (rule again)
  qed
qed


theorem exchange_failure_marks_order_failed_witness:
  "find (\<lambda>r. ID r = ''O1'') (orders world_O1_pending) = Some order_O1
   \<and> CanTransitionTo order_O1 StatusExecuting
   \<and> \<not> exch_ok (scenario_env all_ok all_ok all_fail) (length (trades world_O1_pending))
   \<and> fst (ProcessOrder (scenario_env all_ok all_ok all_fail) world_O1_pending ''O1'')
       = Inl (TradeExecutionFailed ErrExchange)
   \<and> trades (snd (ProcessOrder (scenario_env all_ok all_ok all_fail) world_O1_pending ''O1''))
       = [order_O1\<lparr>Status := StatusExecuting, UpdatedAt := 1002\<rparr>]
   \<and> find (\<lambda>r. ID r = ''O1'')
        (orders (snd (ProcessOrder (scenario_env all_ok all_ok all_fail) world_O1_pending ''O1'')))
       = Some (order_O1\<lparr>Status := StatusFailed, UpdatedAt := 1004\<rparr>)"
proof -
  let ?env = "scenario_env all_ok all_ok all_fail"
  have found: "find (\<lambda>r. ID r = ''O1'') (orders world_O1_pending) = Some order_O1"
    by (simp add: world_O1_pending_eq order_O1_def NewOrder_def)
  have pend: "CanTransitionTo order_O1 StatusExecuting"
    by (simp add: CanTransitionTo_iff order_O1_def NewOrder_def)
  have db: "db_ok ?env (db_calls world_O1_pending)" "db_ok ?env (Suc (db_calls world_O1_pending))"
           "db_ok ?env (Suc (Suc (db_calls world_O1_pending)))"
    by (simp_all add: scenario_env_def all_ok_def)
  have fail: "\<not> exch_ok ?env (length (trades world_O1_pending))"
    by (simp add: scenario_env_def all_fail_def)
  have c: "clock ?env (ticks world_O1_pending) = 1002"
          "clock ?env (Suc (Suc (ticks world_O1_pending))) = 1004"
          "trades world_O1_pending = []"
    by (simp_all add: world_O1_pending_eq scenario_env_def)
  from exchange_failure_marks_order_failed [OF found pend db fail] found pend fail
  show ?thesis by (simp add: c)
qed

text \<open>
  Claim C9. A worker takes an order that may move to EXECUTING, and the store answers
  the read and the first update. Each status update that reaches the store leaves the
  row with the clock reading taken at that update in \<open>UpdatedAt\<close>: the EXECUTING update
  (stamped by \<open>Save\<close>; this is also the order the exchange then receives), and after it
  the COMPLETED update when the exchange succeeds or the FAILED update when it fails
  (assigned by \<open>ProcessOrder\<close> and stamped again by \<open>Save\<close>). If the later update does not
  reach the store, the row stays as the EXECUTING update left it.
\<close>

theorem status_updates_refresh_UpdatedAt:
  assumes found: "find (\<lambda>r. ID r = oid) (orders w) = Some ord"
      and pend: "CanTransitionTo ord StatusExecuting"
      and db: "db_ok env (db_calls w)" "db_ok env (Suc (db_calls w))"
  shows "fst (UpdateOrder env (snd (GetOrder env w oid)) (ord\<lparr>Status := StatusExecuting\<rparr>))
           = Inr (ord\<lparr>Status := StatusExecuting, UpdatedAt := clock env (ticks w)\<rparr>)
         \<and> find (\<lambda>r. ID r = oid)
              (orders (snd (UpdateOrder env (snd (GetOrder env w oid))
                              (ord\<lparr>Status := StatusExecuting\<rparr>))))
           = Some (ord\<lparr>Status := StatusExecuting, UpdatedAt := clock env (ticks w)\<rparr>)
         \<and> trades (snd (ProcessOrder env w oid))
             = trades w @ [ord\<lparr>Status := StatusExecuting, UpdatedAt := clock env (ticks w)\<rparr>]
         \<and> find (\<lambda>r. ID r = oid) (orders (snd (ProcessOrder env w oid)))
             = Some (if \<not> db_ok env (Suc (Suc (db_calls w)))
                     then ord\<lparr>Status := StatusExecuting, UpdatedAt := clock env (ticks w)\<rparr>
                     else if exch_ok env (length (trades w))
                     then ord\<lparr>Status := StatusCompleted,
                              UpdatedAt := clock env (Suc (Suc (ticks w)))\<rparr>
                     else ord\<lparr>Status := StatusFailed,
                              UpdatedAt := clock env (Suc (Suc (ticks w)))\<rparr>)"
proof -
  let ?o1 = "ord\<lparr>Status := StatusExecuting, UpdatedAt := clock env (ticks w)\<rparr>"
  let ?oC = "ord\<lparr>Status := StatusCompleted, UpdatedAt := clock env (Suc (Suc (ticks w)))\<rparr>"
  let ?oF = "ord\<lparr>Status := StatusFailed, UpdatedAt := clock env (Suc (Suc (ticks w)))\<rparr>"
  let ?rows1 = "map (\<lambda>r. if ID r = oid then ?o1 else r) (orders w)"
  have id: "ID ord = oid" using found by (rule find_ID)
  have get: "GetOrder env w oid = (Inr ord, w\<lparr>db_calls := Suc (db_calls w)\<rparr>)"
    using db(1) found by (rule GetOrder_found)
  have f1: "find (\<lambda>r. ID r = oid) ?rows1 = Some ?o1"
    using found by (rule find_replaced) (simp add: id)
  have fC: "find (\<lambda>r. ID r = oid) (map (\<lambda>r. if ID r = oid then ?oC else r) ?rows1) = Some ?oC"
    using f1 by (rule find_replaced) (simp add: id)
  have fF: "find (\<lambda>r. ID r = oid) (map (\<lambda>r. if ID r = oid then ?oF else r) ?rows1) = Some ?oF"
    using f1 by (rule find_replaced) (simp add: id)
  have first: "UpdateOrder env (snd (GetOrder env w oid)) (ord\<lparr>Status := StatusExecuting\<rparr>)
      = (Inr ?o1, w\<lparr>db_calls := Suc (Suc (db_calls w)), ticks := Suc (ticks w), orders := ?rows1\<rparr>)"
    using db(2) found by (simp add: get UpdateOrder_def time_Now_def Let_def id)
  have tr: "trades (snd (ProcessOrder env w oid)) = trades w @ [?o1]"
    using pend db found f1
    by (cases "db_ok env (Suc (Suc (db_calls w)))"; cases "exch_ok env (length (trades w))")
       (simp_all add: ProcessOrder_def get UpdateOrder_def ExecuteTrade_def PublishOrderEvent_def
          time_Now_def Let_def id del: map_map)
  have st: "find (\<lambda>r. ID r = oid) (orders (snd (ProcessOrder env w oid)))
             = Some (if \<not> db_ok env (Suc (Suc (db_calls w))) then ?o1
                     else if exch_ok env (length (trades w)) then ?oC else ?oF)"
    using pend db found f1 fC fF
    by (cases "db_ok env (Suc (Suc (db_calls w)))"; cases "exch_ok env (length (trades w))")
       (simp_all add: ProcessOrder_def get UpdateOrder_def ExecuteTrade_def PublishOrderEvent_def
          time_Now_def Let_def id del: map_map)
  show ?thesis
  proof (intro conjI)
    show "fst (UpdateOrder env (snd (GetOrder env w oid)) (ord\<lparr>Status := StatusExecuting\<rparr>)) = Inr ?o1"
      by (simp add: first)
    show "find (\<lambda>r. ID r = oid)
              (orders (snd (UpdateOrder env (snd (GetOrder env w oid))
                              (ord\<lparr>Status := StatusExecuting\<rparr>)))) = Some ?o1"
      by (simp add: first f1 del: map_map)
    show "trades (snd (ProcessOrder env w oid)) = trades w @ [?o1]" by (rule tr)
    show "find (\<lambda>r. ID r = oid) (orders (snd (ProcessOrder env w oid)))
             = Some (if \<not> db_ok env (Suc (Suc (db_calls w))) then ?o1
                     else if exch_ok env (length (trades w)) then ?oC else ?oF)" by (rule st)
  qed
qed

theorem status_updates_refresh_UpdatedAt_witness:
  "find (\<lambda>r. ID r = ''O1'') (orders world_O1_pending) = Some order_O1
   \<and> CanTransitionTo order_O1 StatusExecuting
   \<and> UpdatedAt order_O1 = 1000
   \<and> trades (snd (ProcessOrder (scenario_env all_ok all_ok all_ok) world_O1_pending ''O1''))
       = [order_O1\<lparr>Status := StatusExecuting, UpdatedAt := 1002\<rparr>]
   \<and> find (\<lambda>r. ID r = ''O1'')
        (orders (snd (ProcessOrder (scenario_env all_ok all_ok all_ok) world_O1_pending ''O1'')))
       = Some (order_O1\<lparr>Status := StatusCompleted, UpdatedAt := 1004\<rparr>)
   \<and> find (\<lambda>r. ID r = ''O1'')
        (orders (snd (ProcessOrder (scenario_env first_four all_ok all_fail) world_O1_pending ''O1'')))
       = Some (order_O1\<lparr>Status := StatusExecuting, UpdatedAt := 1002\<rparr>)"
proof -
  let ?ok = "scenario_env all_ok all_ok all_ok"
  let ?cut = "scenario_env first_four all_ok all_fail"
  have found: "find (\<lambda>r. ID r = ''O1'') (orders world_O1_pending) = Some order_O1"
    by (simp add: world_O1_pending_eq order_O1_def NewOrder_def)
  have pend: "CanTransitionTo order_O1 StatusExecuting"
    by (simp add: CanTransitionTo_iff order_O1_def NewOrder_def)
  have old: "UpdatedAt order_O1 = 1000" by (simp add: order_O1_def NewOrder_def)
  have db: "db_ok ?ok (db_calls world_O1_pending)" "db_ok ?ok (Suc (db_calls world_O1_pending))"
    by (simp_all add: scenario_env_def all_ok_def)
  have db': "db_ok ?cut (db_calls world_O1_pending)" "db_ok ?cut (Suc (db_calls world_O1_pending))"
    by (simp_all add: scenario_env_def first_four_def world_O1_pending_eq)
  have c: "clock ?ok (ticks world_O1_pending) = 1002"
          "clock ?ok (Suc (Suc (ticks world_O1_pending))) = 1004"
          "clock ?cut (ticks world_O1_pending) = 1002"
          "trades world_O1_pending = []"
          "db_ok ?ok (Suc (Suc (db_calls world_O1_pending)))"
          "exch_ok ?ok 0"
          "\<not> db_ok ?cut (Suc (Suc (db_calls world_O1_pending)))"
    by (simp_all add: world_O1_pending_eq scenario_env_def all_ok_def first_four_def)
  from status_updates_refresh_UpdatedAt [OF found pend db]
       status_updates_refresh_UpdatedAt [OF found pend db'] found pend old
  show ?thesis by (simp add: c)
qed

end
